theory Spec2Isabelle
  imports Main "HOL-Library.Word"
begin

unbundle bit_operations_syntax

section \<open>Permission checking (nokari/utils/perms.py)\<close>

subsection \<open>Data model\<close>

text \<open>
  A \<open>hikari.Permissions\<close> value is a bit-flag set; it is kept here as a 64-bit word, the
  width in which the platform transmits permissions.  Union and intersection of flags are
  the bitwise operations on the values.  The complement \<open>~x\<close> of a flag value is taken
  within the flags the library defines: it is \<open>everything & ~x\<close>, where \<open>everything\<close> is
  the union of all defined flags.  The library is not part of the sources, so the set of
  defined flags is a parameter of every function that complements a flag.  Identifiers
  (snowflakes) are natural numbers.
\<close>

type_synonym permissions = "64 word"
type_synonym snowflake = nat

text \<open>
  Modelled from the spec: the permission enumeration \<open>hikari.Permissions\<close> is not part of
  the sources (the spec lists it as an external collaborator that fixes which bit is which
  capability).  Each flag used by the source is the single bit the platform assigns to it.
\<close>

definition ADMINISTRATOR :: permissions where
  "ADMINISTRATOR = push_bit 3 1"

definition VIEW_CHANNEL :: permissions where
  "VIEW_CHANNEL = push_bit 10 1"

definition SEND_MESSAGES :: permissions where
  "SEND_MESSAGES = push_bit 11 1"

definition SEND_TTS_MESSAGES :: permissions where
  "SEND_TTS_MESSAGES = push_bit 12 1"

definition EMBED_LINKS :: permissions where
  "EMBED_LINKS = push_bit 14 1"

definition ATTACH_FILES :: permissions where
  "ATTACH_FILES = push_bit 15 1"

definition MENTION_ROLES :: permissions where
  "MENTION_ROLES = push_bit 17 1"

text \<open>The two literals of the source: the full set of \<open>get_guild_perms\<close> (33 one bits) and
  the channel-dependent mask that \<open>_ensure_perms\<close> means to clear.\<close>

definition ALL_PERMISSIONS :: permissions where
  "ALL_PERMISSIONS = 0x1FFFFFFFF"

definition CHANNEL_DEPENDENT :: permissions where
  "CHANNEL_DEPENDENT = 0xB3F7FF51"

record role =
  permissions :: permissions

record guild =
  guild_id :: snowflake
  owner_id :: snowflake
  roles :: "snowflake \<rightharpoonup> role"

record member =
  member_id :: snowflake
  member_guild_id :: snowflake
  role_ids :: "snowflake list"

record overwrite =
  allow :: permissions
  deny :: permissions

record channel =
  permission_overwrites :: "snowflake \<rightharpoonup> overwrite"

text \<open>The exceptions the permission helpers can raise.\<close>

datatype error = KeyError snowflake | RuntimeError string | AttributeError string

subsection \<open>The helpers\<close>

text \<open>The flag complement \<open>~x\<close>: the defined flags that are not in \<open>x\<close>.\<close>

definition invert :: "permissions \<Rightarrow> permissions \<Rightarrow> permissions" where
  "invert everything x = everything AND NOT x"

text \<open>\<open>_apply_overwrites\<close>: \<open>(perms & ~deny) | allow\<close>.\<close>

definition apply_overwrites ::
  "permissions \<Rightarrow> permissions \<Rightarrow> permissions \<Rightarrow> permissions \<Rightarrow> permissions" where
  "apply_overwrites everything perms al dn = (perms AND invert everything dn) OR al"

text \<open>
  \<open>_auto_pass_guild\<close>: when the trailing guild argument is left out, the guild is taken from
  the bot's cache by the member's guild id, and the call fails when the cache has none.
  The cache is the only part of the bot the helpers read.
\<close>

type_synonym bot_cache = "snowflake \<rightharpoonup> guild"

definition auto_pass_guild :: "bot_cache \<Rightarrow> member \<Rightarrow> guild option \<Rightarrow> error + guild" where
  "auto_pass_guild cache m g =
     (case g of
        Some g' \<Rightarrow> Inr g'
      | None \<Rightarrow>
          (case cache (member_guild_id m) of
             None \<Rightarrow> Inl (RuntimeError ''Unable to get the Guild object'')
           | Some g' \<Rightarrow> Inr g'))"

text \<open>
  \<open>_ensure_perms\<close>.  The four clearing assignments of the first branch are kept one by one.
  The second branch does not rebind \<open>perms\<close>: it assigns to \<open>perms.value\<close>, and the value of
  a flag is a read-only attribute, so after \<open>perms.value & ~Permissions(mask)\<close> has been
  computed the assignment raises \<open>AttributeError\<close>.  The function returns only when
  \<open>VIEW_CHANNEL\<close> is present.
\<close>

definition ensure_perms :: "permissions \<Rightarrow> permissions \<Rightarrow> error + permissions" where
  "ensure_perms everything perms =
     (let perms1 =
            (if perms AND SEND_MESSAGES = 0
             then (((perms AND invert everything SEND_TTS_MESSAGES)
                      AND invert everything MENTION_ROLES)
                     AND invert everything EMBED_LINKS)
                    AND invert everything ATTACH_FILES
             else perms)
      in if perms1 AND VIEW_CHANNEL = 0 then Inl (AttributeError ''value'') else Inr perms1)"

text \<open>\<open>guild.get_role\<close>: a lookup in the guild's role mapping, \<open>None\<close> when absent.\<close>

definition get_role :: "guild \<Rightarrow> snowflake \<Rightarrow> role option" where
  "get_role g rid = roles g rid"

text \<open>The loop of \<open>get_guild_perms\<close> over the member's role ids; unknown roles are skipped.\<close>

fun union_roles :: "guild \<Rightarrow> snowflake list \<Rightarrow> permissions \<Rightarrow> permissions" where
  "union_roles g [] ret = ret"
| "union_roles g (rid # rids) ret =
     (case get_role g rid of
        None \<Rightarrow> union_roles g rids ret
      | Some r \<Rightarrow> union_roles g rids (ret OR permissions r))"

definition get_guild_perms :: "permissions \<Rightarrow> guild \<Rightarrow> member \<Rightarrow> error + permissions" where
  "get_guild_perms everything g m =
     (if owner_id g = member_id m then Inr ALL_PERMISSIONS
      else
        (case roles g (guild_id g) of
           None \<Rightarrow> Inl (KeyError (guild_id g))
         | Some everyone_role \<Rightarrow>
             (let ret = union_roles g (role_ids m) (permissions everyone_role)
              in if ret AND ADMINISTRATOR \<noteq> 0 then Inr ALL_PERMISSIONS
                 else ensure_perms everything ret)))"

definition has_guild_perms ::
  "permissions \<Rightarrow> bot_cache \<Rightarrow> member \<Rightarrow> permissions \<Rightarrow> guild option \<Rightarrow> error + bool" where
  "has_guild_perms everything cache m perms gopt =
     (case auto_pass_guild cache m gopt of
        Inl e \<Rightarrow> Inl e
      | Inr g \<Rightarrow>
          (case get_guild_perms everything g m of
             Inl e \<Rightarrow> Inl e
           | Inr p \<Rightarrow> Inr (p AND perms = perms)))"

text \<open>
  The loop of \<open>has_channel_perms\<close> over the member's role ids: \<open>allow\<close> and \<open>deny\<close> are
  accumulated together, and a role without overwrite in the channel is skipped.
\<close>

fun collect_role_overwrites ::
  "channel \<Rightarrow> snowflake list \<Rightarrow> permissions \<times> permissions \<Rightarrow> permissions \<times> permissions" where
  "collect_role_overwrites c [] acc = acc"
| "collect_role_overwrites c (rid # rids) (al, dn) =
     (case permission_overwrites c rid of
        None \<Rightarrow> collect_role_overwrites c rids (al, dn)
      | Some ow \<Rightarrow> collect_role_overwrites c rids (al OR allow ow, dn OR deny ow))"

text \<open>
  The body of \<open>has_channel_perms\<close> up to its last line: the value of \<open>base\<close> that the
  requested permissions are compared with.  The everyone overwrite is read by subscript,
  which raises when the channel has no entry under the guild id; the role and member
  overwrites are read with \<open>.get\<close>.
\<close>

definition channel_base ::
  "permissions \<Rightarrow> member \<Rightarrow> channel \<Rightarrow> guild \<Rightarrow> error + permissions" where
  "channel_base everything m c g =
     (case get_guild_perms everything g m of
        Inl e \<Rightarrow> Inl e
      | Inr base \<Rightarrow>
          (case permission_overwrites c (guild_id g) of
             None \<Rightarrow> Inl (KeyError (guild_id g))
           | Some everyone \<Rightarrow>
               (let base1 = apply_overwrites everything base (allow everyone) (deny everyone);
                    (al, dn) = collect_role_overwrites c (role_ids m) (0, 0);
                    base2 = apply_overwrites everything base1 al dn;
                    base3 = (case permission_overwrites c (member_id m) of
                               None \<Rightarrow> base2
                             | Some ow \<Rightarrow>
                                 apply_overwrites everything base2 (allow ow) (deny ow))
                in ensure_perms everything base3)))"

definition has_channel_perms ::
  "permissions \<Rightarrow> bot_cache \<Rightarrow> member \<Rightarrow> channel \<Rightarrow> permissions \<Rightarrow> guild option
     \<Rightarrow> error + bool" where
  "has_channel_perms everything cache m c perms gopt =
     (case auto_pass_guild cache m gopt of
        Inl e \<Rightarrow> Inl e
      | Inr g \<Rightarrow>
          (case channel_base everything m c g of
             Inl e \<Rightarrow> Inl e
           | Inr base \<Rightarrow> Inr (base AND perms = perms)))"

section \<open>Prefix resolution (nokari/core/bot.py)\<close>

subsection \<open>Strings\<close>

text \<open>
  A Python string is a sequence of code points, here a list of natural numbers; \<open>str\<close>
  turns a literal into one.  \<open>str.isspace\<close> holds of a non-empty string of white-space
  code points, and \<open>str.strip\<close> removes the same code points from both ends.
  \<open>str.lower\<close> follows the case tables of the interpreter, which are not part of the
  sources, and it may change the length of a string (the capital I with dot above,
  code point 304, becomes two code points): the resolver takes the lower-casing function
  as a parameter.
\<close>

type_synonym ustring = "nat list"

definition str :: "string \<Rightarrow> ustring" where
  "str s = map of_char s"

definition isspace_char :: "nat \<Rightarrow> bool" where
  "isspace_char n \<longleftrightarrow>
     (9 \<le> n \<and> n \<le> 13) \<or> (28 \<le> n \<and> n \<le> 32) \<or> n = 133 \<or> n = 160 \<or> n = 5760
     \<or> (8192 \<le> n \<and> n \<le> 8202) \<or> n = 8232 \<or> n = 8233 \<or> n = 8239 \<or> n = 8287
     \<or> n = 12288"

definition isspace :: "ustring \<Rightarrow> bool" where
  "isspace s \<longleftrightarrow> s \<noteq> [] \<and> list_all isspace_char s"

definition strip :: "ustring \<Rightarrow> ustring" where
  "strip s = rev (dropWhile isspace_char (rev (dropWhile isspace_char s)))"

definition startswith :: "ustring \<Rightarrow> ustring \<Rightarrow> bool" where
  "startswith s p \<longleftrightarrow> take (length p) s = p"

text \<open>
  On text of the ASCII letters, digits and signs, \<open>str.lower\<close> maps the capital letters A
  to Z to the small ones and leaves the rest.  This function stands for it in the examples,
  all of which are such texts.
\<close>

definition lower_ascii :: "ustring \<Rightarrow> ustring" where
  "lower_ascii s = map (\<lambda>n. if 65 \<le> n \<and> n \<le> 90 then n + 32 else n) s"

subsection \<open>Candidate prefixes\<close>

text \<open>
  The part of a message the resolver reads, and the part of the bot \<open>_get_prefixes\<close> reads:
  the attribute \<open>prefixes\<close> exists only once the prefixes have been loaded (\<open>None\<close> before),
  and maps a guild or user id to its prefix list.
\<close>

record message =
  message_guild_id :: "snowflake option"
  author_id :: snowflake
  content :: "ustring option"

record nokari =
  prefixes :: "(snowflake \<rightharpoonup> ustring list) option"
  default_prefixes :: "ustring list"

definition get_prefixes :: "nokari \<Rightarrow> message \<Rightarrow> ustring list" where
  "get_prefixes nk msg =
     (case prefixes nk of
        None \<Rightarrow> default_prefixes nk
      | Some ps \<Rightarrow>
          (case message_guild_id msg of
             None \<Rightarrow> default_prefixes nk
           | Some gid \<Rightarrow> (case ps gid of None \<Rightarrow> default_prefixes nk | Some l \<Rightarrow> l))
          @ (case ps (author_id msg) of None \<Rightarrow> [] | Some l \<Rightarrow> l))"

subsection \<open>The resolver\<close>

text \<open>
  The inner \<open>while\<close> loop of \<open>_resolve_prefix\<close>: as long as the prefix is shorter than the
  lowered content and the next character of the lowered content is white space, that
  character is appended to the prefix.
\<close>

function extend_prefix :: "ustring \<Rightarrow> ustring \<Rightarrow> ustring" where
  "extend_prefix lowered_content p =
     (if length p < length lowered_content
         \<and> isspace (take 1 (drop (length p) lowered_content))
      then extend_prefix lowered_content (p @ take 1 (drop (length p) lowered_content))
      else p)"
  by pat_completeness auto
termination
  by (relation "measure (\<lambda>(lowered_content, p). length lowered_content - length p)") auto

declare extend_prefix.simps [simp del]

text \<open>The \<open>for\<close> loop over the sorted prefixes, left at the first prefix that matches.\<close>

fun match_prefixes :: "ustring \<Rightarrow> ustring list \<Rightarrow> ustring option" where
  "match_prefixes lowered_content [] = None"
| "match_prefixes lowered_content (p # ps) =
     (if startswith lowered_content (strip p)
      then Some (extend_prefix lowered_content (strip p))
      else match_prefixes lowered_content ps)"

text \<open>
  \<open>_resolve_prefix\<close>.  The value awaited from \<open>get_prefix\<close> is either one string or a list
  of strings; \<open>list.sort(key=len, reverse=True)\<close> is stable, so it is the stable sort by
  negated length.  The first argument is \<open>str.lower\<close>.
\<close>

datatype prefix_result = Str ustring | StrList "ustring list"

definition sort_prefixes :: "ustring list \<Rightarrow> ustring list" where
  "sort_prefixes ps = sort_key (\<lambda>p. - int (length p)) ps"

definition resolve_prefix ::
  "(ustring \<Rightarrow> ustring) \<Rightarrow> prefix_result \<Rightarrow> message \<Rightarrow> ustring option" where
  "resolve_prefix lower got msg =
     (let ps = sort_prefixes (case got of Str s \<Rightarrow> [s] | StrList l \<Rightarrow> l)
      in case content msg of
           None \<Rightarrow> None
         | Some c \<Rightarrow> match_prefixes (lower c) ps)"

section \<open>Commands (nokari/core/commands.py)\<close>

text \<open>
  \<open>Command.is_runnable\<close>.  The attribute \<open>disabled\<close> is declared without a value, so it may
  be absent (\<open>None\<close>).  The check chain lives in the base class, which is not part of the
  sources: the base method is a parameter, a computation over whatever state \<open>'s\<close> the
  registered checks read and change.
\<close>

datatype command_error = CheckFailure string | UnexpectedError string

record command =
  disabled :: "bool option"
  usage :: "string option"

definition is_runnable ::
  "('c \<Rightarrow> 's \<Rightarrow> (command_error + bool) \<times> 's) \<Rightarrow> command \<Rightarrow> 'c \<Rightarrow> 's
     \<Rightarrow> (command_error + bool) \<times> 's" where
  "is_runnable super_is_runnable cmd ctx s =
     (if (case disabled cmd of None \<Rightarrow> False | Some d \<Rightarrow> d)
      then (Inl (CheckFailure ''Command is disabled.''), s)
      else super_is_runnable ctx s)"

text \<open>
  Modelled from the spec: the base class's \<open>is_runnable\<close> (library code, not in the sources).
  The registered checks are evaluated in registration order; a check passes, fails with a
  named reason, or raises, and the chain stops at the first check that does not pass.  The
  state is the list of the checks evaluated so far, by position.
\<close>

datatype check_outcome = Passes | Fails string | Raises string

fun run_checks ::
  "('c \<Rightarrow> check_outcome) list \<Rightarrow> nat \<Rightarrow> 'c \<Rightarrow> nat list \<Rightarrow> (command_error + bool) \<times> nat list" where
  "run_checks [] i ctx evaluated = (Inr True, evaluated)"
| "run_checks (chk # chks) i ctx evaluated =
     (case chk ctx of
        Passes \<Rightarrow> run_checks chks (Suc i) ctx (evaluated @ [i])
      | Fails reason \<Rightarrow> (Inl (CheckFailure reason), evaluated @ [i])
      | Raises what \<Rightarrow> (Inl (UnexpectedError what), evaluated @ [i]))"

section \<open>Loading the plugins (nokari/core/bot.py)\<close>

text \<open>
  What \<open>load_extension\<close> can raise, as the handlers of \<open>load_extensions\<close> tell it apart: the
  two extension errors with a handler of their own, any other extension error (it carries
  the lines of its formatted traceback), and an exception of any other class.
\<close>

datatype load_error =
    ExtensionMissingLoad
  | ExtensionAlreadyLoaded
  | ExtensionError "string list"
  | OtherException string

text \<open>\<open>" ".join(lines)\<close>.\<close>

fun join_space :: "string list \<Rightarrow> string" where
  "join_space [] = []"
| "join_space [l] = l"
| "join_space (l # ls) = l @ '' '' @ join_space ls"

text \<open>
  \<open>load_extensions\<close>.  The library's \<open>load_extension\<close> is a parameter acting on the bot state
  \<open>'s\<close>; the printed lines are collected in order.  An exception that no handler catches
  leaves the loop and the function.
\<close>

fun load_extensions ::
  "(string \<Rightarrow> 's \<Rightarrow> (load_error + unit) \<times> 's) \<Rightarrow> string list \<Rightarrow> 's \<times> string list
     \<Rightarrow> (load_error + unit) \<times> 's \<times> string list" where
  "load_extensions load_extension [] w = (Inr (), w)"
| "load_extensions load_extension (extension # rest) (s, out) =
     (case load_extension extension s of
        (Inr u, s') \<Rightarrow> load_extensions load_extension rest (s', out)
      | (Inl ExtensionMissingLoad, s') \<Rightarrow>
          load_extensions load_extension rest
            (s', out @ [extension @ '' is missing load function.''])
      | (Inl ExtensionAlreadyLoaded, s') \<Rightarrow> load_extensions load_extension rest (s', out)
      | (Inl (ExtensionError tb), s') \<Rightarrow>
          load_extensions load_extension rest
            (s', out @ [extension @ '' failed to load.'', join_space tb])
      | (Inl (OtherException e), s') \<Rightarrow> (Inl (OtherException e), s', out))"

section \<open>The confirmation prompt (nokari/core/bot.py)\<close>

text \<open>
  An interaction event as the predicate of \<open>prompt\<close> reads it, and what the prompt does to
  the outside: it sends the prompt message, deletes it, or answers an interaction with a
  message update that carries the components.  The components' disabled flags are local
  to the builder until such an update is sent.
\<close>

record interaction =
  is_component :: bool
  message_id :: snowflake
  user_id :: snowflake
  custom_id :: string

datatype action =
    SendPrompt
  | DeleteMessage
  | MessageUpdate interaction bool

datatype prompt_error = UnboundLocalError string

text \<open>The predicate, with the variable \<open>confirm\<close> it assigns passed through.\<close>

definition predicate :: "snowflake \<Rightarrow> snowflake \<Rightarrow> interaction \<Rightarrow> bool \<Rightarrow> bool \<times> bool" where
  "predicate msg_id author ev confirm =
     (if \<not> is_component ev then (False, confirm)
      else if message_id ev \<noteq> msg_id \<or> user_id ev \<noteq> author then (False, confirm)
      else if custom_id ev = ''sure'' then (True, True)
      else if custom_id ev = ''nvm'' then (True, False)
      else (False, confirm))"

text \<open>
  Modelled from the spec: \<open>wait_for\<close> (library code, not in the sources) waits, up to the
  timeout, for an event the predicate accepts.  The events that arrive before the timeout
  are a list; the first accepted one is returned, and \<open>None\<close> stands for the timeout.
\<close>

fun wait_for ::
  "(interaction \<Rightarrow> bool \<Rightarrow> bool \<times> bool) \<Rightarrow> interaction list \<Rightarrow> bool
     \<Rightarrow> interaction option \<times> bool" where
  "wait_for pred [] confirm = (None, confirm)"
| "wait_for pred (ev # evs) confirm =
     (case pred ev confirm of
        (True, confirm') \<Rightarrow> (Some ev, confirm')
      | (False, confirm') \<Rightarrow> wait_for pred evs confirm')"

text \<open>
  \<open>prompt\<close>, from the sending of the message on.  The result is the returned \<open>confirm\<close>, the
  actions performed in order, the final disabled flag of the components, and the exception
  that the \<open>return\<close> inside \<open>finally\<close> discards, if any.  After a timeout the variable
  \<open>event\<close> was never assigned, so reading it raises.
\<close>

record prompt_result =
  returned :: bool
  actions :: "action list"
  components_disabled :: bool
  discarded :: "prompt_error option"

definition prompt :: "snowflake \<Rightarrow> snowflake \<Rightarrow> bool \<Rightarrow> interaction list \<Rightarrow> prompt_result" where
  "prompt msg_id author delete_after events =
     (case wait_for (predicate msg_id author) events False of
        (event, confirm) \<Rightarrow>
          (if delete_after
           then \<lparr>returned = confirm, actions = [SendPrompt, DeleteMessage],
                 components_disabled = False, discarded = None\<rparr>
           else
             (case event of
                None \<Rightarrow>
                  \<lparr>returned = confirm, actions = [SendPrompt],
                   components_disabled = True,
                   discarded = Some (UnboundLocalError ''event'')\<rparr>
              | Some ev \<Rightarrow>
                  \<lparr>returned = confirm, actions = [SendPrompt, MessageUpdate ev True],
                   components_disabled = True, discarded = None\<rparr>)))"

section \<open>Notions of the specification\<close>

text \<open>
  The channel-scoped computation as the specification words it: the overwrites of the roles
  the member holds, in the order of the role ids; the union of a list of permission sets;
  and the layers applied to the guild-wide permissions one after the other: the everyone
  overwrite as \<open>(base & ~deny) | allow\<close>, the combined role overwrites in one step, and the
  member's own overwrite when there is one.
\<close>

definition role_overwrites :: "channel \<Rightarrow> member \<Rightarrow> overwrite list" where
  "role_overwrites c m = List.map_filter (permission_overwrites c) (role_ids m)"

definition union_all :: "permissions list \<Rightarrow> permissions" where
  "union_all ps = foldr (OR) ps 0"

definition layers ::
  "permissions \<Rightarrow> permissions \<Rightarrow> overwrite \<Rightarrow> overwrite list \<Rightarrow> overwrite option \<Rightarrow> permissions" where
  "layers everything base everyone role_ows member_ow =
     (let after_everyone = (base AND invert everything (deny everyone)) OR allow everyone;
          combined_allow = union_all (map allow role_ows);
          combined_deny = union_all (map deny role_ows);
          after_roles = (after_everyone AND invert everything combined_deny) OR combined_allow
      in case member_ow of
           None \<Rightarrow> after_roles
         | Some ow \<Rightarrow> (after_roles AND invert everything (deny ow)) OR allow ow)"

text \<open>
  A \<open>load_extension\<close> for the examples below: the plugin \<open>b\<close> raises the given exception,
  every other plugin loads and is appended to the list of loaded extensions.
\<close>

definition second_fails :: "load_error \<Rightarrow> string \<Rightarrow> string list \<Rightarrow> (load_error + unit) \<times> string list" where
  "second_fails err e loaded = (if e = ''b'' then (Inl err, loaded) else (Inr (), loaded @ [e]))"

section \<open>Auxiliary facts\<close>

subsection \<open>Evaluation of the permission helpers\<close>

lemmas perm_flags = ADMINISTRATOR_def VIEW_CHANNEL_def SEND_MESSAGES_def SEND_TTS_MESSAGES_def
  EMBED_LINKS_def ATTACH_FILES_def MENTION_ROLES_def ALL_PERMISSIONS_def CHANNEL_DEPENDENT_def

lemmas perm_eval = perm_flags invert_def ensure_perms_def apply_overwrites_def get_guild_perms_def
  get_role_def channel_base_def has_channel_perms_def has_guild_perms_def auto_pass_guild_def

subsection \<open>The layers of the channel-scoped computation\<close>

text \<open>
  Up to the final call of \<open>_ensure_perms\<close>, the body of \<open>has_channel_perms\<close> is the layered
  computation: the two accumulators of its loop are the unions of the allow and of the
  deny sets of the held roles' overwrites.
\<close>

lemma collect_role_overwrites_union:
  "collect_role_overwrites c rids (al, dn) =
     (al OR union_all (map allow (List.map_filter (permission_overwrites c) rids)),
      dn OR union_all (map deny (List.map_filter (permission_overwrites c) rids)))"
proof (induction rids arbitrary: al dn)
  case Nil
  then show ?case by (simp add: union_all_def map_filter_simps)
next
  case (Cons rid rids)
  show ?case
  proof (cases "permission_overwrites c rid")
    case None
    then show ?thesis using Cons.IH by (simp add: map_filter_simps)
  next
    case (Some ow)
    then show ?thesis
      using Cons.IH [of "al OR allow ow" "dn OR deny ow"]
      by (simp add: map_filter_simps union_all_def or.assoc)
  qed
qed

lemma channel_base_layers:
  assumes "get_guild_perms everything g m = Inr base"
    and "permission_overwrites c (guild_id g) = Some everyone"
  shows "channel_base everything m c g =
           ensure_perms everything
             (layers everything base everyone (role_overwrites c m)
                (permission_overwrites c (member_id m)))"
  using assms
  by (simp add: channel_base_def layers_def role_overwrites_def apply_overwrites_def
        collect_role_overwrites_union Let_def split: option.split)

subsection \<open>Iteration in the prefix resolver\<close>

lemma take1_drop: "n < length xs \<Longrightarrow> take 1 (drop n xs) = [xs ! n]"
  by (simp add: Cons_nth_drop_Suc [symmetric])

lemma isspace_next:
  "n < length xs \<Longrightarrow> isspace (take 1 (drop n xs)) \<longleftrightarrow> isspace_char (xs ! n)"
  by (simp only: take1_drop) (simp add: isspace_def)

lemma extend_prefix_eq:
  "extend_prefix lc p = p @ takeWhile isspace_char (drop (length p) lc)"
proof (induction lc p rule: extend_prefix.induct)
  case (1 lc p)
  show ?case
  proof (cases "length p < length lc")
    case lt: True
    have d: "drop (length p) lc = lc ! length p # drop (Suc (length p)) lc"
      using lt by (simp add: Cons_nth_drop_Suc)
    show ?thesis
    proof (cases "isspace_char (lc ! length p)")
      case True
      then have c: "length p < length lc \<and> isspace (take 1 (drop (length p) lc))"
        using lt isspace_next [of "length p" lc] by blast
      have "extend_prefix lc p = extend_prefix lc (p @ take 1 (drop (length p) lc))"
        using c by (subst extend_prefix.simps) simp
      also have "\<dots> = (p @ take 1 (drop (length p) lc)) @
          takeWhile isspace_char (drop (length (p @ take 1 (drop (length p) lc))) lc)"
        using c "1.IH" by blast
      also have "\<dots> = (p @ [lc ! length p]) @ takeWhile isspace_char (drop (Suc (length p)) lc)"
        using lt by (simp only: take1_drop) simp
      also have "\<dots> = p @ takeWhile isspace_char (drop (length p) lc)"
        using True by (simp add: d)
      finally show ?thesis .
    next
      case False
      then have "\<not> isspace (take 1 (drop (length p) lc))"
        using lt isspace_next [of "length p" lc] by blast
      then have "extend_prefix lc p = p"
        by (subst extend_prefix.simps) simp
      then show ?thesis using False by (simp add: d)
    qed
  next
    case False
    then have "extend_prefix lc p = p"
      by (subst extend_prefix.simps) simp
    then show ?thesis using False by simp
  qed
qed

lemma match_prefixes_find:
  "match_prefixes lc ps =
     map_option (\<lambda>p. extend_prefix lc (strip p)) (find (\<lambda>p. startswith lc (strip p)) ps)"
  by (induction ps) simp_all

lemma find_as_filter:
  "find Q zs = (case filter Q zs of [] \<Rightarrow> None | z # _ \<Rightarrow> Some z)"
  by (induction zs) simp_all

lemma find_narrow:
  "find P ys = Some c \<Longrightarrow> Q c \<Longrightarrow> (\<And>d. Q d \<Longrightarrow> P d) \<Longrightarrow> find Q ys = Some c"
  by (induction ys) (auto split: if_splits)

lemma find_sort_key_least:
  fixes f :: "'a \<Rightarrow> int"
  assumes "find P (sort_key f xs) = Some c" and "d \<in> set xs" and "P d"
  shows "f c \<le> f d"
proof -
  let ?ys = "sort_key f xs"
  from assms(1) obtain i where i: "i < length ?ys" "P (?ys ! i)" "c = ?ys ! i"
    and first: "\<forall>j<i. \<not> P (?ys ! j)"
    unfolding find_Some_iff by blast
  from assms(2) have "d \<in> set ?ys" by simp
  then obtain k where k: "k < length ?ys" "?ys ! k = d"
    using in_set_conv_nth [of d ?ys] by blast
  with first assms(3) have "i \<le> k" by (meson not_le_imp_less)
  have "sorted (map f ?ys)" by (rule sorted_sort_key)
  then have "map f ?ys ! i \<le> map f ?ys ! k"
    using \<open>i \<le> k\<close> k(1) by (simp add: sorted_iff_nth_mono del: sorted_sort_key length_sort)
  then show ?thesis using i k by simp
qed

lemma find_sort_key_first:
  fixes f :: "'a \<Rightarrow> int"
  assumes "find P (sort_key f xs) = Some c"
  shows "find (\<lambda>d. P d \<and> f d = f c) xs = Some c"
proof -
  have Pc: "P c" using assms by (auto simp: find_Some_iff)
  have "find (\<lambda>d. P d \<and> f d = f c) (sort_key f xs) = Some c"
    using find_narrow [OF assms, of "\<lambda>d. P d \<and> f d = f c"] Pc by simp
  moreover have "filter (\<lambda>d. P d \<and> f d = f c) (sort_key f xs) = filter (\<lambda>d. P d \<and> f d = f c) xs"
  proof -
    have "filter (\<lambda>d. P d \<and> f d = f c) (sort_key f xs)
        = filter P (filter (\<lambda>d. f d = f c) (sort_key f xs))"
      by (simp add: conj_commute)
    also have "\<dots> = filter P (filter (\<lambda>d. f d = f c) xs)"
      by (simp only: sort_key_stable)
    also have "\<dots> = filter (\<lambda>d. P d \<and> f d = f c) xs"
      by (simp add: conj_commute)
    finally show ?thesis .
  qed
  ultimately show ?thesis by (simp add: find_as_filter)
qed

lemma find_sort_key_None:
  "find P (sort_key f xs) = None \<longleftrightarrow> (\<forall>d\<in>set xs. \<not> P d)"
  by (auto simp: find_None_iff)

lemma find_Some_set: "find P xs = Some c \<Longrightarrow> c \<in> set xs \<and> P c"
  by (induction xs) (auto split: if_splits)

lemma prefix_then_run:
  assumes "take (length xs) ys = xs"
  shows "take (length (xs @ takeWhile P (drop (length xs) ys))) ys
           = xs @ takeWhile P (drop (length xs) ys)"
proof -
  let ?n = "length xs"
  have "ys = take ?n ys @ drop ?n ys" by simp
  also have "drop ?n ys = takeWhile P (drop ?n ys) @ dropWhile P (drop ?n ys)" by simp
  finally have "ys = (xs @ takeWhile P (drop ?n ys)) @ dropWhile P (drop ?n ys)"
    using assms by simp
  then have "take (length (xs @ takeWhile P (drop ?n ys))) ys
      = take (length (xs @ takeWhile P (drop ?n ys)))
          ((xs @ takeWhile P (drop ?n ys)) @ dropWhile P (drop ?n ys))"
    by simp
  then show ?thesis by (simp only: append_eq_conv_conj take_all_iff take_append) simp
qed

lemma resolve_prefix_find:
  "content msg = Some t \<Longrightarrow>
   resolve_prefix lw (StrList cands) msg =
     map_option (\<lambda>c. strip c @ takeWhile isspace_char (drop (length (strip c)) (lw t)))
       (find (\<lambda>c. startswith (lw t) (strip c)) (sort_key (\<lambda>p. - int (length p)) cands))"
  by (simp add: resolve_prefix_def sort_prefixes_def match_prefixes_find extend_prefix_eq
        option.map_comp comp_def)

lemma lower_ascii_keeps_space:
  "takeWhile isspace_char (lower_ascii t) = takeWhile isspace_char t"
proof -
  have "isspace_char (if 65 \<le> n \<and> n \<le> 90 then n + 32 else n) = isspace_char n" for n
    by (auto simp: isspace_char_def)
  moreover have "isspace_char n \<Longrightarrow> (if 65 \<le> n \<and> n \<le> 90 then n + 32 else n) = n" for n
    by (auto simp: isspace_char_def)
  ultimately show ?thesis
    unfolding lower_ascii_def by (induction t) simp_all
qed

lemmas prefix_eval = resolve_prefix_def sort_prefixes_def lower_ascii_def startswith_def
  strip_def isspace_def isspace_char_def extend_prefix_eq str_def

section \<open>The claims\<close>

subsection \<open>Permissions\<close>

text \<open>
  C1.  The claim: for the guild owner (or a member whose roles carry \<open>ADMINISTRATOR\<close>) the
  channel-scoped check holds for every permission set, whatever the channel overwrites.
  The source gives such a member the full set guild-wide, but \<open>has_channel_perms\<close> then
  applies the channel overwrites to it like to any other base: for the owner of guild 10
  in a channel whose everyone overwrite denies \<open>SEND_MESSAGES\<close>, the guild-wide
  permissions are the full set and the channel-scoped check of \<open>SEND_MESSAGES\<close> is false.
  The defined flags are those of the source's full set, here and in the next examples.
\<close>

theorem owner_still_subject_to_overwrites:
  "get_guild_perms ALL_PERMISSIONS
      \<lparr>guild_id = 10, owner_id = 1, roles = [10 \<mapsto> \<lparr>permissions = 0\<rparr>]\<rparr>
      \<lparr>member_id = 1, member_guild_id = 10, role_ids = []\<rparr> = Inr ALL_PERMISSIONS
   \<and> has_channel_perms ALL_PERMISSIONS Map.empty
        \<lparr>member_id = 1, member_guild_id = 10, role_ids = []\<rparr>
        \<lparr>permission_overwrites = [10 \<mapsto> \<lparr>allow = 0, deny = SEND_MESSAGES\<rparr>]\<rparr>
        SEND_MESSAGES
        (Some \<lparr>guild_id = 10, owner_id = 1, roles = [10 \<mapsto> \<lparr>permissions = 0\<rparr>]\<rparr>)
      = Inr False"
  by (simp add: perm_eval)

text \<open>
  C3.  The claim: the channel-scoped computation applies the everyone overwrite, then the
  combined role overwrites, then the member's overwrite, and finally the
  dependent-permission rule once more.  The source applies the layers in that order, but
  its final call of \<open>_ensure_perms\<close> raises when the layered set lacks \<open>VIEW_CHANNEL\<close>: in a
  channel whose everyone overwrite denies \<open>VIEW_CHANNEL\<close> and \<open>SEND_MESSAGES\<close>, for a member
  whose role overwrite allows \<open>SEND_MESSAGES\<close> again, \<open>has_channel_perms\<close> raises
  \<open>AttributeError\<close> instead of returning.  Where the everyone overwrite denies
  \<open>SEND_MESSAGES\<close> only, the role overwrite gives it back and the check succeeds.
\<close>

theorem channel_layers_raise_without_view_channel:
  "get_guild_perms ALL_PERMISSIONS
      \<lparr>guild_id = 10, owner_id = 1,
        roles = [10 \<mapsto> \<lparr>permissions = VIEW_CHANNEL OR SEND_MESSAGES OR EMBED_LINKS\<rparr>,
                 20 \<mapsto> \<lparr>permissions = 0\<rparr>]\<rparr>
      \<lparr>member_id = 2, member_guild_id = 10, role_ids = [20, 30]\<rparr>
     = Inr (VIEW_CHANNEL OR SEND_MESSAGES OR EMBED_LINKS)
   \<and> has_channel_perms ALL_PERMISSIONS Map.empty
        \<lparr>member_id = 2, member_guild_id = 10, role_ids = [20, 30]\<rparr>
        \<lparr>permission_overwrites = [10 \<mapsto> \<lparr>allow = 0, deny = VIEW_CHANNEL OR SEND_MESSAGES\<rparr>,
                                   20 \<mapsto> \<lparr>allow = SEND_MESSAGES, deny = 0\<rparr>,
                                   2 \<mapsto> \<lparr>allow = 0, deny = EMBED_LINKS\<rparr>]\<rparr>
        SEND_MESSAGES
        (Some \<lparr>guild_id = 10, owner_id = 1,
               roles = [10 \<mapsto> \<lparr>permissions = VIEW_CHANNEL OR SEND_MESSAGES OR EMBED_LINKS\<rparr>,
                        20 \<mapsto> \<lparr>permissions = 0\<rparr>]\<rparr>)
     = Inl (AttributeError ''value'')
   \<and> has_channel_perms ALL_PERMISSIONS Map.empty
        \<lparr>member_id = 2, member_guild_id = 10, role_ids = [20, 30]\<rparr>
        \<lparr>permission_overwrites = [10 \<mapsto> \<lparr>allow = 0, deny = SEND_MESSAGES\<rparr>,
                                   20 \<mapsto> \<lparr>allow = SEND_MESSAGES, deny = 0\<rparr>,
                                   2 \<mapsto> \<lparr>allow = 0, deny = EMBED_LINKS\<rparr>]\<rparr>
        (VIEW_CHANNEL OR SEND_MESSAGES)
        (Some \<lparr>guild_id = 10, owner_id = 1,
               roles = [10 \<mapsto> \<lparr>permissions = VIEW_CHANNEL OR SEND_MESSAGES OR EMBED_LINKS\<rparr>,
                        20 \<mapsto> \<lparr>permissions = 0\<rparr>]\<rparr>)
     = Inr True"
  by (simp add: perm_eval)

text \<open>
  C4.  The claim: a permission set produced by the dependent-permission rule without
  \<open>VIEW_CHANNEL\<close> has no bit of the channel-dependent mask (and without \<open>SEND_MESSAGES\<close> none
  of the four message permissions).  The source means to clear the mask by assigning to
  \<open>perms.value\<close>, which raises: for a set without \<open>VIEW_CHANNEL\<close>, \<open>_ensure_perms\<close> and with
  it the guild-wide computation raise \<open>AttributeError\<close> and produce no set.  With
  \<open>VIEW_CHANNEL\<close> present the message permissions are cleared as claimed.
\<close>

theorem ensure_perms_raises_without_view_channel:
  "ensure_perms ALL_PERMISSIONS (SEND_TTS_MESSAGES OR EMBED_LINKS) = Inl (AttributeError ''value'')
   \<and> get_guild_perms ALL_PERMISSIONS
        \<lparr>guild_id = 10, owner_id = 1,
          roles = [10 \<mapsto> \<lparr>permissions = SEND_TTS_MESSAGES OR EMBED_LINKS\<rparr>]\<rparr>
        \<lparr>member_id = 2, member_guild_id = 10, role_ids = []\<rparr>
      = Inl (AttributeError ''value'')
   \<and> ensure_perms ALL_PERMISSIONS (VIEW_CHANNEL OR SEND_TTS_MESSAGES OR EMBED_LINKS)
      = Inr VIEW_CHANNEL"
  by (simp add: perm_eval)

text \<open>
  C6.  The claim: the channel-scoped computation skips the everyone layer when the channel
  has no overwrite under the guild id.  The source reads that overwrite by subscript,
  unlike the role and member overwrites a few lines below: for a member whose guild-wide
  permissions are computed without error, a channel without overwrites makes
  \<open>has_channel_perms\<close> raise \<open>KeyError\<close>.
\<close>

theorem missing_everyone_overwrite_raises:
  "get_guild_perms ALL_PERMISSIONS
      \<lparr>guild_id = 10, owner_id = 1, roles = [10 \<mapsto> \<lparr>permissions = VIEW_CHANNEL\<rparr>]\<rparr>
      \<lparr>member_id = 2, member_guild_id = 10, role_ids = []\<rparr> = Inr VIEW_CHANNEL
   \<and> has_channel_perms ALL_PERMISSIONS Map.empty
        \<lparr>member_id = 2, member_guild_id = 10, role_ids = []\<rparr>
        \<lparr>permission_overwrites = Map.empty\<rparr>
        VIEW_CHANNEL
        (Some \<lparr>guild_id = 10, owner_id = 1, roles = [10 \<mapsto> \<lparr>permissions = VIEW_CHANNEL\<rparr>]\<rparr>)
      = Inl (KeyError 10)"
  by (simp add: perm_eval)

subsection \<open>Prefix resolution\<close>

text \<open>
  C2, as amended.  When a candidate matches, the resolver returns the trimmed form of a
  matching candidate followed by the white space that follows it in the lower-cased
  message: a leading part of the lower-cased message, not the original-case substring of
  the message.  This holds for every lower-casing function.  For the candidates \<open>n!\<close>,
  \<open>nokari\<close> and the message \<open>Nokari   ping\<close> the result is \<open>nokari\<close> with three spaces, in
  lower case.
\<close>

theorem resolve_prefix_returns_lowered:
  assumes "content msg = Some t"
    and "c0 \<in> set cands" and "startswith (lw t) (strip c0)"
  shows "\<exists>c\<in>set cands. \<exists>r.
           resolve_prefix lw (StrList cands) msg = Some r
         \<and> startswith (lw t) (strip c)
         \<and> r = strip c @ takeWhile isspace_char (drop (length (strip c)) (lw t))
         \<and> r = take (length r) (lw t)"
proof -
  let ?P = "\<lambda>c. startswith (lw t) (strip c)"
  let ?f = "\<lambda>p :: ustring. - int (length p)"
  have "find ?P (sort_key ?f cands) \<noteq> None"
    using assms(2,3) by (auto simp only: find_sort_key_None)
  then obtain c where f: "find ?P (sort_key ?f cands) = Some c" by blast
  have c: "c \<in> set cands" "?P c"
    using find_Some_set [OF f] by simp_all
  let ?r = "strip c @ takeWhile isspace_char (drop (length (strip c)) (lw t))"
  have res: "resolve_prefix lw (StrList cands) msg = Some ?r"
    using f by (simp add: resolve_prefix_find [OF assms(1)])
  from c(2) have tk: "take (length (strip c)) (lw t) = strip c"
    by (simp add: startswith_def)
  have "take (length ?r) (lw t) = ?r"
    using prefix_then_run [OF tk, of isspace_char] by simp
  then have "?r = take (length ?r) (lw t)" by simp
  with c res show ?thesis by blast
qed

theorem resolve_prefix_returns_lowered_witness:
  "resolve_prefix lower_ascii (StrList [str ''n!'', str ''nokari''])
     \<lparr>message_guild_id = None, author_id = 1, content = Some (str ''Nokari   ping'')\<rparr>
       = Some (str ''nokari   '')
   \<and> (\<exists>c\<in>set [str ''n!'', str ''nokari'']. \<exists>r.
         resolve_prefix lower_ascii (StrList [str ''n!'', str ''nokari''])
           \<lparr>message_guild_id = None, author_id = 1, content = Some (str ''Nokari   ping'')\<rparr>
             = Some r
         \<and> startswith (lower_ascii (str ''Nokari   ping'')) (strip c)
         \<and> r = strip c @ takeWhile isspace_char
                 (drop (length (strip c)) (lower_ascii (str ''Nokari   ping'')))
         \<and> r = take (length r) (lower_ascii (str ''Nokari   ping'')))"
proof -
  let ?m = "\<lparr>message_guild_id = None, author_id = 1, content = Some (str ''Nokari   ping'')\<rparr>"
  have c: "content ?m = Some (str ''Nokari   ping'')" by simp
  have i: "str ''nokari'' \<in> set [str ''n!'', str ''nokari'']" by simp
  have s: "startswith (lower_ascii (str ''Nokari   ping'')) (strip (str ''nokari''))"
    by (simp add: prefix_eval)
  have r: "resolve_prefix lower_ascii (StrList [str ''n!'', str ''nokari'']) ?m
      = Some (str ''nokari   '')"
    by (simp add: prefix_eval)
  show ?thesis
    using r resolve_prefix_returns_lowered [where lw = lower_ascii and t = "str ''Nokari   ping''", OF c i s]
    by blast
qed

theorem resolve_prefix_case_counterexample:
  "resolve_prefix lower_ascii (StrList [str ''n!'', str ''nokari''])
     \<lparr>message_guild_id = None, author_id = 1, content = Some (str ''Nokari   ping'')\<rparr>
       = Some (str ''nokari   '')
   \<and> str ''nokari   '' \<noteq> str ''Nokari   ''"
  by (simp add: prefix_eval)

text \<open>
  C5.  When no candidate matches the message, the resolver returns nothing.  Otherwise it
  returns the extended prefix of a matching candidate \<open>c\<close> such that no matching candidate
  is longer than \<open>c\<close> and \<open>c\<close> is the first matching candidate of its length in the
  original order.  In the candidate list of \<open>_get_prefixes\<close> the prefixes of the guild come
  before those of the user.  For the candidates \<open>a\<close>, \<open>ab\<close> and the message \<open>abc\<close> the
  result is \<open>ab\<close>.
\<close>

theorem longest_candidate_wins:
  assumes "content msg = Some t"
  shows "(case resolve_prefix lw (StrList cands) msg of
            None \<Rightarrow> \<forall>c\<in>set cands. \<not> startswith (lw t) (strip c)
          | Some r \<Rightarrow>
              (\<exists>c. find (\<lambda>d. startswith (lw t) (strip d) \<and> length d = length c) cands = Some c
                 \<and> (\<forall>d\<in>set cands. startswith (lw t) (strip d) \<longrightarrow> length d \<le> length c)
                 \<and> r = extend_prefix (lw t) (strip c)))
       \<and> (prefixes nk = Some ps \<and> message_guild_id msg = Some gid \<and> ps gid = Some gs
            \<and> ps (author_id msg) = Some us \<longrightarrow> get_prefixes nk msg = gs @ us)"
proof -
  let ?P = "\<lambda>c. startswith (lw t) (strip c)"
  let ?f = "\<lambda>p :: ustring. - int (length p)"
  have res: "resolve_prefix lw (StrList cands) msg =
      map_option (\<lambda>c. extend_prefix (lw t) (strip c)) (find ?P (sort_key ?f cands))"
    using assms by (simp add: resolve_prefix_def sort_prefixes_def match_prefixes_find)
  have first: ?thesis if "prefixes nk = Some ps \<and> message_guild_id msg = Some gid \<and> ps gid = Some gs
            \<and> ps (author_id msg) = Some us \<longrightarrow> get_prefixes nk msg = gs @ us"
  proof (cases "find ?P (sort_key ?f cands)")
    case None
    then have "\<forall>c\<in>set cands. \<not> ?P c" by (simp only: find_sort_key_None)
    then show ?thesis using None res that by simp
  next
    case (Some c)
    have a: "find (\<lambda>d. ?P d \<and> length d = length c) cands = Some c"
      using find_sort_key_first [OF Some] by simp
    have b: "\<forall>d\<in>set cands. ?P d \<longrightarrow> length d \<le> length c"
      using find_sort_key_least [OF Some] by fastforce
    show ?thesis using a b Some res that by auto
  qed
  show ?thesis by (rule first) (auto simp: get_prefixes_def)
qed

theorem longest_candidate_wins_witness:
  "resolve_prefix lower_ascii (StrList [str ''a'', str ''ab''])
      \<lparr>message_guild_id = Some 7, author_id = 9, content = Some (str ''abc'')\<rparr>
     = Some (str ''ab'')
   \<and> (\<exists>c. find (\<lambda>d. startswith (lower_ascii (str ''abc'')) (strip d) \<and> length d = length c)
             [str ''a'', str ''ab''] = Some c
         \<and> (\<forall>d\<in>set [str ''a'', str ''ab''].
               startswith (lower_ascii (str ''abc'')) (strip d) \<longrightarrow> length d \<le> length c)
         \<and> str ''ab'' = extend_prefix (lower_ascii (str ''abc'')) (strip c))
   \<and> get_prefixes
        \<lparr>prefixes = Some [7 \<mapsto> [str ''a''], 9 \<mapsto> [str ''ab'']],
          default_prefixes = [str ''nokari'', str ''n!'']\<rparr>
        \<lparr>message_guild_id = Some 7, author_id = 9, content = Some (str ''abc'')\<rparr>
     = [str ''a''] @ [str ''ab'']"
proof -
  let ?m = "\<lparr>message_guild_id = Some 7, author_id = 9, content = Some (str ''abc'')\<rparr>"
  let ?ps = "[7 \<mapsto> [str ''a''], 9 \<mapsto> [str ''ab'']] :: snowflake \<rightharpoonup> ustring list"
  let ?nk = "\<lparr>prefixes = Some ?ps, default_prefixes = [str ''nokari'', str ''n!'']\<rparr>"
  have c: "content ?m = Some (str ''abc'')" by simp
  have r: "resolve_prefix lower_ascii (StrList [str ''a'', str ''ab'']) ?m = Some (str ''ab'')"
    by (simp add: prefix_eval)
  have g: "prefixes ?nk = Some ?ps \<and> message_guild_id ?m = Some 7
      \<and> ?ps 7 = Some [str ''a''] \<and> ?ps (author_id ?m) = Some [str ''ab'']"
    by simp
  show ?thesis
    using r g longest_candidate_wins [where lw = lower_ascii and t = "str ''abc''", OF c,
        of "[str ''a'', str ''ab'']" ?nk ?ps 7 "[str ''a'']" "[str ''ab'']"]
    by (simp only: option.case)
qed

text \<open>
  C10, as amended.  If a candidate is empty or white space only, the resolver returns a
  prefix for every message with content; when no candidate with a non-empty trimmed form
  matches, the prefix is the leading white-space run of the lower-cased message, which is
  that of the message itself as lower-casing leaves leading white space alone.  (A
  matching candidate that sorts before the blank one wins instead: for the candidates
  \<open>''\<close>, \<open>a\<close> and the message \<open>abc\<close> the result is \<open>a\<close>.)
\<close>

theorem blank_candidate_always_matches:
  assumes "content msg = Some t" and "c \<in> set cands" and "strip c = []"
  shows "resolve_prefix lw (StrList cands) msg \<noteq> None
       \<and> ((\<forall>d\<in>set cands. startswith (lw t) (strip d) \<longrightarrow> strip d = [])
            \<longrightarrow> resolve_prefix lw (StrList cands) msg = Some (takeWhile isspace_char (lw t))
              \<and> (takeWhile isspace_char (lw t) = takeWhile isspace_char t
                   \<longrightarrow> resolve_prefix lw (StrList cands) msg = Some (takeWhile isspace_char t)))"
proof -
  let ?P = "\<lambda>c. startswith (lw t) (strip c)"
  let ?f = "\<lambda>p :: ustring. - int (length p)"
  have res: "resolve_prefix lw (StrList cands) msg =
      map_option (\<lambda>c. strip c @ takeWhile isspace_char (drop (length (strip c)) (lw t)))
        (find ?P (sort_key ?f cands))"
    using assms(1) by (rule resolve_prefix_find)
  have "?P c" using assms(3) by (simp add: startswith_def)
  with assms(2) have "find ?P (sort_key ?f cands) \<noteq> None"
    by (auto simp only: find_sort_key_None)
  then obtain d where d: "find ?P (sort_key ?f cands) = Some d" by blast
  then have "d \<in> set cands" "?P d" using find_Some_set [OF d] by simp_all
  then show ?thesis using d res by auto
qed

theorem blank_candidate_always_matches_witness:
  "resolve_prefix lower_ascii (StrList [str ''n!'', str ''  ''])
      \<lparr>message_guild_id = None, author_id = 1, content = Some (str '' Hello'')\<rparr>
     = Some (str '' '')
   \<and> takeWhile isspace_char (str '' Hello'') = str '' ''"
proof -
  let ?m = "\<lparr>message_guild_id = None, author_id = 1, content = Some (str '' Hello'')\<rparr>"
  have c: "content ?m = Some (str '' Hello'')" by simp
  have i: "str ''  '' \<in> set [str ''n!'', str ''  '']" by simp
  have s: "strip (str ''  '') = []" by (simp add: prefix_eval)
  have a: "\<forall>d\<in>set [str ''n!'', str ''  ''].
      startswith (lower_ascii (str '' Hello'')) (strip d) \<longrightarrow> strip d = []"
    by (simp add: prefix_eval)
  have k: "takeWhile isspace_char (lower_ascii (str '' Hello''))
      = takeWhile isspace_char (str '' Hello'')"
    by (rule lower_ascii_keeps_space)
  have w: "takeWhile isspace_char (str '' Hello'') = str '' ''" by (simp add: prefix_eval)
  show ?thesis
    using blank_candidate_always_matches [where lw = lower_ascii and t = "str '' Hello''",
        OF c i s] a k w
    by simp
qed

theorem blank_candidate_counterexample:
  "resolve_prefix lower_ascii (StrList [str '''', str ''a''])
      \<lparr>message_guild_id = None, author_id = 1, content = Some (str ''abc'')\<rparr>
     = Some (str ''a'')
   \<and> takeWhile isspace_char (str ''abc'') = []
   \<and> str ''a'' \<noteq> []"
  by (simp add: prefix_eval)

subsection \<open>Commands\<close>

text \<open>
  C7.  For a command whose disabled flag is set, \<open>is_runnable\<close> fails with the reason
  \<open>Command is disabled.\<close> and leaves the state as it was, whatever the base class's check
  chain would do; with the chain of registered checks for it, no check is evaluated.
\<close>

theorem disabled_fails_before_checks:
  assumes "disabled cmd = Some True"
  shows "is_runnable super_is_runnable cmd ctx s = (Inl (CheckFailure ''Command is disabled.''), s)
       \<and> is_runnable (run_checks chks 0) cmd ctx evaluated
            = (Inl (CheckFailure ''Command is disabled.''), evaluated)"
  using assms by (simp add: is_runnable_def)

theorem disabled_fails_before_checks_witness:
  "is_runnable (run_checks [\<lambda>_. Passes, \<lambda>_. Fails ''Not the owner.''] 0)
       \<lparr>disabled = Some True, usage = None\<rparr> () []
     = (Inl (CheckFailure ''Command is disabled.''), [])
   \<and> is_runnable (run_checks [\<lambda>_. Passes, \<lambda>_. Fails ''Not the owner.''] 0)
       \<lparr>disabled = Some False, usage = None\<rparr> () []
     = (Inl (CheckFailure ''Not the owner.''), [0, 1])"
proof -
  have d: "disabled \<lparr>disabled = Some True, usage = None\<rparr> = Some True" by simp
  have "is_runnable (run_checks [\<lambda>_. Passes, \<lambda>_. Fails ''Not the owner.''] 0)
       \<lparr>disabled = Some False, usage = None\<rparr> () []
     = (Inl (CheckFailure ''Not the owner.''), [0, 1])"
    by (simp add: is_runnable_def)
  then show ?thesis
    using disabled_fails_before_checks [OF d, of "\<lambda>_ s. (Inr True, s)" "()" "[] :: nat list"
        "[\<lambda>_. Passes, \<lambda>_. Fails ''Not the owner.'']" "[]"]
    by simp
qed

subsection \<open>Loading the plugins\<close>

text \<open>
  C8.  The claim: a plugin that raises during load is reported and skipped, and the
  remaining identifiers are still processed.  The handlers of \<open>load_extensions\<close> catch
  extension errors only: with three identifiers of which the second raises an exception
  of another class, the first is loaded, the exception leaves the loop, the third is never
  tried and nothing is reported.  When the second raises an extension error, it is
  reported with its traceback and the first and third are loaded.
\<close>

theorem load_extensions_aborts_on_other_exception:
  "load_extensions (second_fails (OtherException ''ValueError'')) [''a'', ''b'', ''c''] ([], [])
     = (Inl (OtherException ''ValueError''), [''a''], [])
   \<and> load_extensions (second_fails (ExtensionError [''Traceback:'', ''boom''])) [''a'', ''b'', ''c'']
       ([], [])
     = (Inr (), [''a'', ''c''], [''b failed to load.'', ''Traceback: boom''])"
  by (simp add: second_fails_def)

subsection \<open>The confirmation prompt\<close>

text \<open>
  C9.  The claim: after a timeout the prompt returns false and still disables the
  prompt's controls.  In the source, with \<open>delete_after\<close> unset, a timeout (here the only
  interaction comes from another user) returns false and sets the disabled flag of the
  local components, but reading the unassigned \<open>event\<close> raises before the message update
  is sent, and the \<open>return\<close> inside \<open>finally\<close> discards the exception: the only action is
  the sending of the prompt.  When the author answers, the update is sent.
\<close>

theorem prompt_timeout_sends_no_update:
  "prompt 5 7 False [\<lparr>is_component = True, message_id = 5, user_id = 8, custom_id = ''sure''\<rparr>]
     = \<lparr>returned = False, actions = [SendPrompt], components_disabled = True,
        discarded = Some (UnboundLocalError ''event'')\<rparr>
   \<and> prompt 5 7 False [\<lparr>is_component = True, message_id = 5, user_id = 7, custom_id = ''nvm''\<rparr>]
     = \<lparr>returned = False,
        actions = [SendPrompt,
          MessageUpdate \<lparr>is_component = True, message_id = 5, user_id = 7, custom_id = ''nvm''\<rparr> True],
        components_disabled = True, discarded = None\<rparr>"
  by (simp add: prompt_def predicate_def)

end
